theory Spec2Isabelle
  imports Main "HOL-Library.Word"
begin

unbundle bit_operations_syntax

section \<open>Constants of \<^verbatim>\<open>cuszplus_f32.cu\<close>\<close>

type_synonym u8 = "8 word"
type_synonym u32 = "32 word"

definition kMagic :: u32 where
  "kMagic = 0xCA7DD007"

definition kHeaderBytes :: nat where
  "kHeaderBytes = 4 + 4 + 4"

definition BLOCK_SIZE :: nat where
  "BLOCK_SIZE = 256"

definition QUANT_GROUP_SIZE :: nat where
  "QUANT_GROUP_SIZE = 32"

definition THREAD_GROUP_COUNT :: nat where
  "THREAD_GROUP_COUNT = 4"

definition THREAD_FLOAT_COUNT :: nat where
  "THREAD_FLOAT_COUNT = THREAD_GROUP_COUNT * QUANT_GROUP_SIZE"

definition BLOCK_FLOAT_COUNT :: nat where
  "BLOCK_FLOAT_COUNT = BLOCK_SIZE * THREAD_FLOAT_COUNT"

definition BLOCK_PARAM_COUNT :: nat where
  "BLOCK_PARAM_COUNT = BLOCK_SIZE * THREAD_GROUP_COUNT"

definition PARAM_SIZE :: nat where
  "PARAM_SIZE = 4 + 1 + 1"

text \<open>\<^verbatim>\<open>sizeof(uint32_t)\<close>, in bytes.\<close>

definition sizeof_uint32 :: nat where
  "sizeof_uint32 = 4"

lemmas consts_defs =
  kHeaderBytes_def BLOCK_SIZE_def QUANT_GROUP_SIZE_def THREAD_GROUP_COUNT_def
  THREAD_FLOAT_COUNT_def BLOCK_FLOAT_COUNT_def BLOCK_PARAM_COUNT_def PARAM_SIZE_def
  sizeof_uint32_def

section \<open>Tools\<close>

text \<open>
  The CUDA intrinsic \<^verbatim>\<open>__clz\<close> on a 32-bit value: the number of consecutive zero bits
  starting at bit 31, and 32 for the value 0. \<open>clz_from n x\<close> counts them below bit \<open>n\<close>.
\<close>

fun clz_from :: "nat \<Rightarrow> u32 \<Rightarrow> nat" where
  "clz_from 0 x = 0"
| "clz_from (Suc n) x = (if bit x n then 0 else Suc (clz_from n x))"

definition clz :: "u32 \<Rightarrow> nat" where
  "clz x = clz_from 32 x"

text \<open>\<^verbatim>\<open>bit_count(x) = (sizeof(uint32_t)*8) - __clz(x)\<close>\<close>

definition bit_count :: "u32 \<Rightarrow> u32" where
  "bit_count x = of_nat (sizeof_uint32 * 8 - clz x)"

text \<open>
  \<^verbatim>\<open>zigzag_encode(uint32_t x) = (x << 1) ^ (x >> 31)\<close>: the argument is unsigned, so
  the right shift is a logical one.
\<close>

definition zigzag_encode :: "u32 \<Rightarrow> u32" where
  "zigzag_encode x = push_bit 1 x XOR drop_bit 31 x"

text \<open>\<^verbatim>\<open>zigzag_decode(uint32_t x) = (x >> 1) ^ -(x & 1)\<close>, read as \<^verbatim>\<open>int32_t\<close>.\<close>

definition zigzag_decode :: "u32 \<Rightarrow> u32" where
  "zigzag_decode x = drop_bit 1 x XOR (- (x AND 1))"

section \<open>Bit interleaving\<close>

text \<open>
  One iteration of the outer loop of \<^verbatim>\<open>interleave_words_1bit\<close>: the word stored at
  \<^verbatim>\<open>output[shift]\<close>. The input pointer is a view of memory, \<open>input i\<close> being
  \<^verbatim>\<open>input[i]\<close>.
\<close>

definition interleave_word :: "(nat \<Rightarrow> u32) \<Rightarrow> nat \<Rightarrow> u32" where
  "interleave_word input shift =
     (let mask = push_bit shift (1 :: u32) in
      fold (\<lambda>i result. result OR push_bit i (drop_bit shift (input i AND mask)))
        [1..<32] (drop_bit shift (input 0 AND mask)))"

text \<open>The words \<^verbatim>\<open>output[0] .. output[bits - 1]\<close> written by \<^verbatim>\<open>interleave_words_1bit\<close>.\<close>

definition interleave_words_1bit :: "(nat \<Rightarrow> u32) \<Rightarrow> nat \<Rightarrow> u32 list" where
  "interleave_words_1bit input bits = map (interleave_word input) [0..<bits]"

text \<open>The word stored at \<^verbatim>\<open>output[i]\<close> by \<^verbatim>\<open>deinterleave_words_1bit\<close>.\<close>

definition deinterleave_word :: "(nat \<Rightarrow> u32) \<Rightarrow> nat \<Rightarrow> nat \<Rightarrow> u32" where
  "deinterleave_word input bits i =
     fold (\<lambda>j result. result OR push_bit j (drop_bit i (input j) AND 1)) [0..<bits] 0"

text \<open>The 32 words \<^verbatim>\<open>output[0] .. output[31]\<close> written by \<^verbatim>\<open>deinterleave_words_1bit\<close>.\<close>

definition deinterleave_words_1bit :: "(nat \<Rightarrow> u32) \<Rightarrow> nat \<Rightarrow> u32 list" where
  "deinterleave_words_1bit input bits = map (deinterleave_word input bits) [0..<32]"

section \<open>Compression kernel\<close>

text \<open>
  The kernel works on \<^verbatim>\<open>float\<close>; the embedding keeps the float type abstract (\<open>'f\<close>) and
  takes the two places where floats meet integers as parameters:
  \<^item> \<open>quantize x\<close> is \<^verbatim>\<open>__float2int_rn(x * epsilon)\<close> after \<^verbatim>\<open>epsilon = 1.0f / epsilon\<close>,
    the \<^verbatim>\<open>int32_t\<close> result kept as its 32-bit pattern;
  \<^item> \<open>dequantize q\<close> is \<^verbatim>\<open>curr_quant * epsilon\<close> in the decompression kernel.

  Device memory is a function from element index to value (\<open>original_data\<close>, the
  parameter tables and the packed words of a block).
\<close>

text \<open>\<^verbatim>\<open>int float_index = thread_idx * THREAD_FLOAT_COUNT + j;\<close> in the loops over \<open>i\<close> and \<open>j\<close>.\<close>

definition compress_float_index :: "nat \<Rightarrow> nat \<Rightarrow> nat \<Rightarrow> nat" where
  "compress_float_index thread_idx i j = thread_idx * THREAD_FLOAT_COUNT + j"

text \<open>The locals of a thread that the loop over \<open>j\<close> reads and writes.\<close>

record thread_scan =
  prev_quant :: u32
  quant_group :: "u32 list"
  max_quant :: u32
  max2_quant :: u32
  max_index :: u8

text \<open>The body of the loop over \<open>j\<close> (source lines 437 to 456).\<close>

definition quant_step ::
  "('f \<Rightarrow> u32) \<Rightarrow> (nat \<Rightarrow> 'f) \<Rightarrow> nat \<Rightarrow> nat \<Rightarrow> nat \<Rightarrow> thread_scan \<Rightarrow> thread_scan" where
  "quant_step quantize original_data thread_idx i j s =
     (let float_index = compress_float_index thread_idx i j;
          quant = quantize (original_data float_index);
          delta = quant - prev_quant s;
          zig_quant = zigzag_encode delta;
          s1 = s\<lparr>prev_quant := quant,
                 quant_group := (quant_group s)[i * QUANT_GROUP_SIZE + j := zig_quant]\<rparr>
      in if zig_quant > max_quant s1
         then s1\<lparr>max2_quant := max_quant s1, max_quant := zig_quant, max_index := of_nat j\<rparr>
         else if zig_quant > max2_quant s1
         then s1\<lparr>max2_quant := zig_quant\<rparr>
         else s1)"

text \<open>
  The loop over \<open>j\<close> for group \<open>i\<close>, started with \<^verbatim>\<open>max_quant = 0, max2_quant = 0,
  max_index = 0\<close>.
\<close>

definition quant_loop ::
  "('f \<Rightarrow> u32) \<Rightarrow> (nat \<Rightarrow> 'f) \<Rightarrow> nat \<Rightarrow> nat \<Rightarrow> u32 \<Rightarrow> u32 list \<Rightarrow> thread_scan" where
  "quant_loop quantize original_data thread_idx i prev qg =
     fold (quant_step quantize original_data thread_idx i) [0..<QUANT_GROUP_SIZE]
       \<lparr>prev_quant = prev, quant_group = qg, max_quant = 0, max2_quant = 0, max_index = 0\<rparr>"

text \<open>
  The memory of one block: the three parameter tables, indexed by
  \<^verbatim>\<open>THREAD_GROUP_COUNT * threadIdx.x + i\<close>, and the packed words that follow them.
\<close>

record block_mem =
  tab_max_index :: "nat \<Rightarrow> u8"
  tab_bits :: "nat \<Rightarrow> u8"
  tab_high_bits :: "nat \<Rightarrow> u32"
  packed_words :: "nat \<Rightarrow> u32"

text \<open>The locals of a thread that live across the loop over \<open>i\<close> and the barriers.\<close>

record thread_locals =
  t_prev_quant :: u32
  t_quant_group :: "u32 list"
  t_group_bits :: "u8 list"
  t_used_words :: u32

text \<open>
  The body of the first loop over \<open>i\<close> (source lines 433 to 472). A shift by 32, which
  C++ leaves undefined, gives 0 as the device's shift instructions do.
\<close>

fun param_step ::
  "('f \<Rightarrow> u32) \<Rightarrow> (nat \<Rightarrow> 'f) \<Rightarrow> nat \<Rightarrow> nat \<Rightarrow> nat \<Rightarrow> thread_locals \<times> block_mem
     \<Rightarrow> thread_locals \<times> block_mem" where
  "param_step quantize original_data thread_idx tid i (t, mem) =
     (let s = quant_loop quantize original_data thread_idx i (t_prev_quant t) (t_quant_group t);
          bits = bit_count (max2_quant s);
          k = THREAD_GROUP_COUNT * tid + i
      in (t\<lparr>t_prev_quant := prev_quant s,
            t_quant_group := quant_group s,
            t_group_bits := (t_group_bits t)[i := ucast bits],
            t_used_words := t_used_words t + bits * of_nat QUANT_GROUP_SIZE div of_nat sizeof_uint32\<rparr>,
          mem\<lparr>tab_max_index := (tab_max_index mem)(k := max_index s),
              tab_bits := (tab_bits mem)(k := ucast bits),
              tab_high_bits := (tab_high_bits mem)(k := drop_bit (unat bits) (max_quant s))\<rparr>))"

definition thread_init :: thread_locals where
  "thread_init = \<lparr>t_prev_quant = 0, t_quant_group = replicate THREAD_FLOAT_COUNT 0,
     t_group_bits = replicate THREAD_GROUP_COUNT 0, t_used_words = 0\<rparr>"

text \<open>The kernel up to the first barrier, for the thread \<open>tid\<close> of the block.\<close>

definition compress_params ::
  "('f \<Rightarrow> u32) \<Rightarrow> (nat \<Rightarrow> 'f) \<Rightarrow> nat \<Rightarrow> nat \<Rightarrow> block_mem \<Rightarrow> thread_locals \<times> block_mem" where
  "compress_params quantize original_data thread_idx tid mem =
     fold (param_step quantize original_data thread_idx tid) [0..<THREAD_GROUP_COUNT]
       (thread_init, mem)"

text \<open>
  \<^verbatim>\<open>cub::BlockScan::ExclusiveSum\<close> over the threads of a block: thread \<open>t\<close> receives the
  sum of the inputs of the threads before it, thread 0 receives 0.
\<close>

fun exclusive_sum_from :: "u32 \<Rightarrow> u32 list \<Rightarrow> u32 list" where
  "exclusive_sum_from acc [] = []"
| "exclusive_sum_from acc (x # xs) = acc # exclusive_sum_from (acc + x) xs"

definition ExclusiveSum :: "u32 list \<Rightarrow> u32 list" where
  "ExclusiveSum xs = exclusive_sum_from 0 xs"

text \<open>\<open>write_words m p ws\<close>: the words \<open>ws\<close> stored at \<open>p, p + 1, ...\<close> of the memory \<open>m\<close>.\<close>

definition write_words :: "(nat \<Rightarrow> u32) \<Rightarrow> nat \<Rightarrow> u32 list \<Rightarrow> (nat \<Rightarrow> u32)" where
  "write_words m p ws = (\<lambda>a. if p \<le> a \<and> a < p + length ws then ws ! (a - p) else m a)"

text \<open>
  The body of the second loop over \<open>i\<close> (source lines 494 to 508); the state is the
  pointer \<^verbatim>\<open>compressed_words\<close>, as a word index into the packed region, and the packed
  region.
\<close>

fun pack_step ::
  "thread_locals \<Rightarrow> nat \<Rightarrow> nat \<times> (nat \<Rightarrow> u32) \<Rightarrow> nat \<times> (nat \<Rightarrow> u32)" where
  "pack_step t i (compressed_words, words) =
     (let bits = unat (t_group_bits t ! i)
      in (compressed_words + bits,
          write_words words compressed_words
            (interleave_words_1bit (\<lambda>k. t_quant_group t ! (i * QUANT_GROUP_SIZE + k)) bits)))"

text \<open>The value of \<^verbatim>\<open>compressed_words\<close> when the thread packs its group \<open>g\<close>.\<close>

definition compress_group_offset :: "thread_locals \<Rightarrow> u32 \<Rightarrow> nat \<Rightarrow> nat" where
  "compress_group_offset t offset g =
     fst (fold (pack_step t) [0..<g] (unat offset, \<lambda>_. 0))"

text \<open>The kernel after the second barrier, for a thread whose scan result is \<open>offset\<close>.\<close>

definition compress_pack :: "thread_locals \<Rightarrow> u32 \<Rightarrow> (nat \<Rightarrow> u32) \<Rightarrow> (nat \<Rightarrow> u32)" where
  "compress_pack t offset words =
     snd (fold (pack_step t) [0..<THREAD_GROUP_COUNT] (unat offset, words))"

text \<open>
  One block of \<^verbatim>\<open>SZplus_compress_kernel_f32\<close>, with \<open>bdim\<close> threads (\<^verbatim>\<open>blockDim.x\<close>; the
  host launches \<^verbatim>\<open>BLOCK_SIZE\<close>): all threads compute their parameters, the barrier, the
  exclusive sum, the barrier, the store to \<^verbatim>\<open>block_used_words[blockIdx.x]\<close> by the last
  thread, and the packing. The result is the block's memory and the value stored to
  \<^verbatim>\<open>block_used_words\<close>. The threads of the block are taken in the order of
  \<^verbatim>\<open>threadIdx.x\<close>; \<open>ts\<close> collects their locals.
\<close>

fun compress_block_thread ::
  "('f \<Rightarrow> u32) \<Rightarrow> (nat \<Rightarrow> 'f) \<Rightarrow> nat \<Rightarrow> nat \<Rightarrow> nat \<Rightarrow> thread_locals list \<times> block_mem
     \<Rightarrow> thread_locals list \<times> block_mem" where
  "compress_block_thread quantize original_data block_idx bdim tid (ts, m) =
     (case compress_params quantize original_data (block_idx * bdim + tid) tid m of
        (t, m') \<Rightarrow> (ts @ [t], m'))"

definition compress_block_params ::
  "('f \<Rightarrow> u32) \<Rightarrow> (nat \<Rightarrow> 'f) \<Rightarrow> nat \<Rightarrow> nat \<Rightarrow> block_mem \<Rightarrow> thread_locals list \<times> block_mem" where
  "compress_block_params quantize original_data block_idx bdim mem =
     fold (compress_block_thread quantize original_data block_idx bdim) [0..<bdim] ([], mem)"

definition compress_block_pack ::
  "thread_locals list \<Rightarrow> u32 list \<Rightarrow> nat \<Rightarrow> (nat \<Rightarrow> u32) \<Rightarrow> (nat \<Rightarrow> u32)" where
  "compress_block_pack ts offsets tid words = compress_pack (ts ! tid) (offsets ! tid) words"

definition SZplus_compress_kernel_f32 ::
  "('f \<Rightarrow> u32) \<Rightarrow> (nat \<Rightarrow> 'f) \<Rightarrow> nat \<Rightarrow> nat \<Rightarrow> block_mem \<Rightarrow> block_mem \<times> u32" where
  "SZplus_compress_kernel_f32 quantize original_data block_idx bdim mem =
     (case compress_block_params quantize original_data block_idx bdim mem of
        (ts, m) \<Rightarrow>
          (let offsets = ExclusiveSum (map t_used_words ts);
               used = offsets ! (bdim - 1) + t_used_words (ts ! (bdim - 1));
               words = fold (compress_block_pack ts offsets) [0..<bdim] (packed_words m)
           in (m\<lparr>packed_words := words\<rparr>, used)))"

section \<open>Decompression kernel\<close>

text \<open>
  The locals of a decompression thread and the floats it has stored to
  \<^verbatim>\<open>decompressed_floats\<close>; \<open>d_words\<close> is the pointer \<^verbatim>\<open>compressed_words\<close> as a word index
  into the packed region of the block.
\<close>

record 'f dec_locals =
  d_quant_group :: "u32 list"
  d_prev_quant :: u32
  d_words :: nat
  d_floats :: "nat \<Rightarrow> 'f"

text \<open>
  \<^verbatim>\<open>max_quant = (high_bits[...] << bits) | ((1 << bits) - 1)\<close>. The byte \<open>bits\<close> comes from
  the stream; a shift by 32 or more, which C++ leaves undefined, gives 0 as the device's
  shift instructions do.
\<close>

definition restore_max_quant :: "u32 \<Rightarrow> u8 \<Rightarrow> u32" where
  "restore_max_quant high bits = push_bit (unat bits) high OR (push_bit (unat bits) 1 - 1)"

text \<open>
  Source lines 650 to 676: the residuals of group \<open>i\<close> of thread \<open>tid\<close> unpacked into
  \<^verbatim>\<open>quant_group\<close>, the pointer advanced, the largest value restored. The store to
  \<^verbatim>\<open>quant_group[i * QUANT_GROUP_SIZE + max_index]\<close> is outside the array when the index is
  \<^verbatim>\<open>THREAD_FLOAT_COUNT\<close> or more: the result is \<open>None\<close> there.
\<close>

definition unpack_group ::
  "block_mem \<Rightarrow> nat \<Rightarrow> nat \<Rightarrow> 'f dec_locals \<Rightarrow> 'f dec_locals option" where
  "unpack_group mem tid i d =
     (let k = THREAD_GROUP_COUNT * tid + i;
          mx_index = tab_max_index mem k;
          bits = tab_bits mem k;
          mx_quant = restore_max_quant (tab_high_bits mem k) bits;
          residuals =
            (if bits = 0 then replicate QUANT_GROUP_SIZE 0
             else deinterleave_words_1bit (\<lambda>j. packed_words mem (d_words d + j)) (unat bits));
          qg = fold (\<lambda>j q. q[i * QUANT_GROUP_SIZE + j := residuals ! j]) [0..<QUANT_GROUP_SIZE]
                 (d_quant_group d);
          at = i * QUANT_GROUP_SIZE + unat mx_index
      in if at < THREAD_FLOAT_COUNT
         then Some (d\<lparr>d_quant_group := qg[at := mx_quant], d_words := d_words d + unat bits\<rparr>)
         else None)"

text \<open>Source lines 679 to 685: zig-zag decoding, inverse delta and the store of the float.\<close>

definition undelta_step ::
  "(u32 \<Rightarrow> 'f) \<Rightarrow> nat \<Rightarrow> nat \<Rightarrow> nat \<Rightarrow> 'f dec_locals \<Rightarrow> 'f dec_locals" where
  "undelta_step dequantize block_float_start i j d =
     (let curr_quant = zigzag_decode (d_quant_group d ! (i * QUANT_GROUP_SIZE + j)) + d_prev_quant d;
          float_index = block_float_start + i * QUANT_GROUP_SIZE + j
      in d\<lparr>d_prev_quant := curr_quant,
           d_floats := (d_floats d)(float_index := dequantize curr_quant)\<rparr>)"

definition decompress_group ::
  "(u32 \<Rightarrow> 'f) \<Rightarrow> block_mem \<Rightarrow> nat \<Rightarrow> nat \<Rightarrow> nat \<Rightarrow> 'f dec_locals option \<Rightarrow> 'f dec_locals option" where
  "decompress_group dequantize mem thread_idx tid i r =
     (case r of None \<Rightarrow> None
      | Some d \<Rightarrow>
          (case unpack_group mem tid i d of None \<Rightarrow> None
           | Some d' \<Rightarrow>
               Some (fold (undelta_step dequantize (thread_idx * THREAD_FLOAT_COUNT) i)
                       [0..<QUANT_GROUP_SIZE] d')))"

text \<open>
  One thread of \<^verbatim>\<open>SZplus_decompress_kernel_f32\<close>: \<^verbatim>\<open>compressed_words\<close> starts at the first
  packed word of the block, for every thread.
\<close>

definition dec_init :: "(nat \<Rightarrow> 'f) \<Rightarrow> 'f dec_locals" where
  "dec_init floats =
     \<lparr>d_quant_group = replicate THREAD_FLOAT_COUNT 0, d_prev_quant = 0, d_words = 0,
      d_floats = floats\<rparr>"

definition decompress_thread ::
  "(u32 \<Rightarrow> 'f) \<Rightarrow> block_mem \<Rightarrow> nat \<Rightarrow> nat \<Rightarrow> (nat \<Rightarrow> 'f) \<Rightarrow> 'f dec_locals option" where
  "decompress_thread dequantize mem thread_idx tid floats =
     fold (decompress_group dequantize mem thread_idx tid) [0..<THREAD_GROUP_COUNT]
       (Some (dec_init floats))"

text \<open>The value of \<^verbatim>\<open>compressed_words\<close> when the thread \<open>tid\<close> unpacks its group \<open>g\<close>.\<close>

definition decompress_group_offset ::
  "(u32 \<Rightarrow> 'f) \<Rightarrow> block_mem \<Rightarrow> nat \<Rightarrow> nat \<Rightarrow> (nat \<Rightarrow> 'f) \<Rightarrow> nat \<Rightarrow> nat option" where
  "decompress_group_offset dequantize mem thread_idx tid floats g =
     map_option d_words
       (fold (decompress_group dequantize mem thread_idx tid) [0..<g] (Some (dec_init floats)))"

definition decompress_block_thread ::
  "(u32 \<Rightarrow> 'f) \<Rightarrow> block_mem \<Rightarrow> nat \<Rightarrow> nat \<Rightarrow> nat \<Rightarrow> (nat \<Rightarrow> 'f) option \<Rightarrow> (nat \<Rightarrow> 'f) option" where
  "decompress_block_thread dequantize mem block_idx bdim tid r =
     (case r of None \<Rightarrow> None
      | Some fl \<Rightarrow>
          map_option d_floats (decompress_thread dequantize mem (block_idx * bdim + tid) tid fl))"

text \<open>One block of \<^verbatim>\<open>SZplus_decompress_kernel_f32\<close>: its threads one after the other.\<close>

definition SZplus_decompress_kernel_f32 ::
  "(u32 \<Rightarrow> 'f) \<Rightarrow> block_mem \<Rightarrow> nat \<Rightarrow> nat \<Rightarrow> (nat \<Rightarrow> 'f) \<Rightarrow> (nat \<Rightarrow> 'f) option" where
  "SZplus_decompress_kernel_f32 dequantize mem block_idx bdim floats =
     fold (decompress_block_thread dequantize mem block_idx bdim) [0..<bdim] (Some floats)"

section \<open>Inputs of the evaluations\<close>

text \<open>A block memory holding zeros: the contents of a block before the kernel runs.\<close>

definition zero_mem :: block_mem where
  "zero_mem =
     \<lparr>tab_max_index = (\<lambda>_. 0), tab_bits = (\<lambda>_. 0), tab_high_bits = (\<lambda>_. 0),
      packed_words = (\<lambda>_. 0)\<rparr>"

text \<open>
  Floats with integer values, at \<^verbatim>\<open>epsilon = 1.0f\<close>: there \<^verbatim>\<open>1.0f / epsilon\<close> is 1, the
  product \<^verbatim>\<open>x * epsilon\<close> is \<open>x\<close>, \<^verbatim>\<open>__float2int_rn\<close> of an integer-valued float below
  \<open>2^24\<close> in magnitude is that integer, and \<^verbatim>\<open>curr_quant * epsilon\<close> is the float of
  \<^verbatim>\<open>curr_quant\<close>. Such floats are written as the integers they hold.
\<close>

definition quantize_unit :: "int \<Rightarrow> u32" where
  "quantize_unit x = word_of_int x"

definition dequantize_unit :: "u32 \<Rightarrow> int" where
  "dequantize_unit q = sint q"

text \<open>The ramp \<open>F[k] = k\<close>.\<close>

definition ramp :: "nat \<Rightarrow> int" where
  "ramp k = int k"

text \<open>The input with \<open>F[32] = 1000\<close> and 0 everywhere else.\<close>

definition spike32 :: "nat \<Rightarrow> int" where
  "spike32 k = (if k = 32 then 1000 else 0)"

text \<open>
  Thread 0 of block 0 through both kernels: the memory of the block after the thread has
  stored its parameters and packed its groups at the offset 0 that the exclusive sum
  gives to the first thread, and the thread's decompression from that memory.
\<close>

definition thread0_compressed :: "('f \<Rightarrow> u32) \<Rightarrow> (nat \<Rightarrow> 'f) \<Rightarrow> block_mem" where
  "thread0_compressed quantize original_data =
     (snd (compress_params quantize original_data 0 0 zero_mem))
       \<lparr>packed_words :=
          compress_pack (fst (compress_params quantize original_data 0 0 zero_mem)) 0
            (packed_words (snd (compress_params quantize original_data 0 0 zero_mem)))\<rparr>"

definition thread0_roundtrip ::
  "('f \<Rightarrow> u32) \<Rightarrow> (u32 \<Rightarrow> 'f) \<Rightarrow> (nat \<Rightarrow> 'f) \<Rightarrow> (nat \<Rightarrow> 'f) \<Rightarrow> 'f dec_locals option" where
  "thread0_roundtrip quantize dequantize original_data floats =
     decompress_thread dequantize (thread0_compressed quantize original_data) 0 0 floats"

section \<open>Host side\<close>

text \<open>C++ division of \<^verbatim>\<open>int\<close> values truncates towards zero.\<close>

definition c_div :: "int \<Rightarrow> int \<Rightarrow> int" where
  "c_div a b = sgn a * sgn b * (\<bar>a\<bar> div \<bar>b\<bar>)"

text \<open>The conversion of an \<^verbatim>\<open>int\<close> to \<^verbatim>\<open>bool\<close> at a \<^verbatim>\<open>return\<close> of a function returning \<^verbatim>\<open>bool\<close>.\<close>

definition int_to_bool :: "int \<Rightarrow> bool" where
  "int_to_bool n \<longleftrightarrow> n \<noteq> 0"

subsection \<open>\<^verbatim>\<open>FloatCompressor::Compress\<close>\<close>

text \<open>
  How a loop around \<^verbatim>\<open>ZSTD_compressStream\<close> or \<^verbatim>\<open>ZSTD_endStream\<close> is left: a call flagged
  an error, the output buffer was full after a call, or the loop ran to its end.
\<close>

datatype stream_exit = Stream_error | Output_full | Stream_done

text \<open>
  What the CUDA runtime and the entropy coder answer during one call of \<^verbatim>\<open>Compress\<close>.
  Each \<open>_failed\<close> field says that the call returned something other than
  \<^verbatim>\<open>cudaSuccess\<close>.
\<close>

record compress_env =
  cudaMalloc_failed :: bool
  cudaMemcpy_failed :: bool
  cudaMallocManaged_failed :: bool
  cudaStreamCreate_failed :: bool
  kernel_failed :: bool
  createCStream_null :: bool
  initCStream_error :: bool
  cudaDeviceSynchronize_failed :: bool
  header_stream :: stream_exit
  block_stream :: "nat \<Rightarrow> stream_exit"
  end_stream :: stream_exit

text \<open>
  The loop over the blocks (source lines 593 to 609), from block \<open>i\<close> with \<open>n\<close> blocks to
  go: \<open>False\<close> when it is left by \<^verbatim>\<open>return false\<close>.
\<close>

fun compress_blocks :: "compress_env \<Rightarrow> nat \<Rightarrow> nat \<Rightarrow> bool" where
  "compress_blocks env i 0 = True"
| "compress_blocks env i (Suc n) =
     (if block_stream env i = Stream_done then compress_blocks env (Suc i) n else False)"

text \<open>
  The result of \<^verbatim>\<open>Compress\<close>. The two allocation checks end in \<^verbatim>\<open>return -1;\<close>; the
  results of \<^verbatim>\<open>cudaMemcpy\<close>, \<^verbatim>\<open>cudaStreamCreate\<close>, the kernel launch and
  \<^verbatim>\<open>cudaDeviceSynchronize\<close> are not looked at.
\<close>

definition Compress :: "compress_env \<Rightarrow> int \<Rightarrow> bool" where
  "Compress env float_count =
     (if cudaMalloc_failed env then int_to_bool (- 1)
      else let block_count = c_div (float_count + int BLOCK_FLOAT_COUNT - 1) (int BLOCK_FLOAT_COUNT)
      in if cudaMallocManaged_failed env then int_to_bool (- 1)
      else if createCStream_null env then False
      else if initCStream_error env then False
      else if header_stream env = Stream_error \<or> header_stream env = Output_full then False
      else if \<not> compress_blocks env 0 (nat block_count) then False
      else if end_stream env = Stream_error \<or> end_stream env = Output_full then False
      else True)"

subsection \<open>\<^verbatim>\<open>FloatDecompressor::Decompress\<close>, up to the entropy decoder\<close>

text \<open>
  The input is the byte list \<open>data\<close>, with \<^verbatim>\<open>compressed_bytes = length data\<close>. A read of
  \<^verbatim>\<open>data[k]\<close> with \<open>k\<close> at or beyond the length is recorded as \<open>Read_past_end k\<close>.
\<close>

datatype 'a outcome =
    Read_past_end nat
  | Signed_overflow
  | Throws
  | Returns bool
  | Continues 'a

definition read_byte :: "u8 list \<Rightarrow> nat \<Rightarrow> u8 outcome" where
  "read_byte data k = (if k < length data then Continues (data ! k) else Read_past_end k)"

definition bind_outcome :: "'a outcome \<Rightarrow> ('a \<Rightarrow> 'b outcome) \<Rightarrow> 'b outcome" where
  "bind_outcome r f =
     (case r of Continues x \<Rightarrow> f x
      | Read_past_end k \<Rightarrow> Read_past_end k
      | Signed_overflow \<Rightarrow> Signed_overflow
      | Throws \<Rightarrow> Throws
      | Returns b \<Rightarrow> Returns b)"

text \<open>\<^verbatim>\<open>read_uint32_le(data + p)\<close>\<close>

definition read_uint32_le :: "u8 list \<Rightarrow> nat \<Rightarrow> u32 outcome" where
  "read_uint32_le data p =
     bind_outcome (read_byte data p) (\<lambda>b0.
     bind_outcome (read_byte data (p + 1)) (\<lambda>b1.
     bind_outcome (read_byte data (p + 2)) (\<lambda>b2.
     bind_outcome (read_byte data (p + 3)) (\<lambda>b3.
       Continues (ucast b0 OR push_bit 8 (ucast b1) OR push_bit 16 (ucast b2)
                  OR push_bit 24 (ucast b3))))))"

text \<open>The loop that fills \<^verbatim>\<open>block_used_words\<close> (source lines 716 to 718).\<close>

fun read_block_used_words :: "u8 list \<Rightarrow> nat \<Rightarrow> nat \<Rightarrow> u32 list outcome" where
  "read_block_used_words data i 0 = Continues []"
| "read_block_used_words data i (Suc n) =
     bind_outcome (read_uint32_le data (kHeaderBytes + i * 4)) (\<lambda>w.
     bind_outcome (read_block_used_words data (Suc i) n) (\<lambda>ws. Continues (w # ws)))"

record dec_header =
  h_epsilon_bits :: u32
  h_float_count :: int
  h_block_count :: int
  h_block_used_words :: "u32 list"

text \<open>
  Source lines 697 to 718. \<^verbatim>\<open>float_count\<close> is the \<^verbatim>\<open>uint32_t\<close> read from the stream
  converted to \<^verbatim>\<open>int\<close>; the sum \<^verbatim>\<open>float_count + BLOCK_FLOAT_COUNT - 1\<close> overflows \<^verbatim>\<open>int\<close>
  beyond \<open>2^31 - 1\<close>; a negative \<^verbatim>\<open>block_count\<close> as the size of a \<^verbatim>\<open>std::vector\<close> throws.
\<close>

definition Decompress_header :: "u8 list \<Rightarrow> dec_header outcome" where
  "Decompress_header data =
     (if int (length data) < int kHeaderBytes then Returns False
      else bind_outcome (read_uint32_le data 0) (\<lambda>magic.
        if magic \<noteq> kMagic then Returns False
        else bind_outcome (read_uint32_le data 4) (\<lambda>eps.
             bind_outcome (read_uint32_le data 8) (\<lambda>fc.
               let float_count = sint fc in
               if float_count + int BLOCK_FLOAT_COUNT - 1 > 2 ^ 31 - 1 then Signed_overflow
               else let block_count =
                          c_div (float_count + int BLOCK_FLOAT_COUNT - 1) (int BLOCK_FLOAT_COUNT)
               in if block_count < 0 then Throws
               else bind_outcome (read_block_used_words data 0 (nat block_count)) (\<lambda>ws.
                      Continues \<lparr>h_epsilon_bits = eps, h_float_count = float_count,
                        h_block_count = block_count, h_block_used_words = ws\<rparr>)))))"

section \<open>Invariant of the scan for the two largest residuals\<close>

text \<open>
  What holds of the locals after \<open>n\<close> iterations of the loop over \<open>j\<close> in group \<open>i\<close>:
  \<^verbatim>\<open>max_index\<close> is the first position of the largest residual seen, \<^verbatim>\<open>max2_quant\<close>
  is the largest among the others.
\<close>

definition scan_inv :: "nat \<Rightarrow> nat \<Rightarrow> thread_scan \<Rightarrow> bool" where
  "scan_inv i n s \<longleftrightarrow>
     length (quant_group s) = THREAD_FLOAT_COUNT
   \<and> unat (max_index s) < max n 1
   \<and> (0 < n \<longrightarrow> quant_group s ! (i * QUANT_GROUP_SIZE + unat (max_index s)) = max_quant s)
   \<and> (n = 0 \<longrightarrow> max_quant s = 0)
   \<and> (\<forall>j<n. quant_group s ! (i * QUANT_GROUP_SIZE + j) \<le> max_quant s)
   \<and> (\<forall>j<unat (max_index s). quant_group s ! (i * QUANT_GROUP_SIZE + j) < max_quant s)
   \<and> (\<forall>j<n. j \<noteq> unat (max_index s) \<longrightarrow> quant_group s ! (i * QUANT_GROUP_SIZE + j) \<le> max2_quant s)
   \<and> (2 \<le> n \<longrightarrow> (\<exists>j<n. j \<noteq> unat (max_index s) \<and> quant_group s ! (i * QUANT_GROUP_SIZE + j) = max2_quant s))
   \<and> (n < 2 \<longrightarrow> max2_quant s = 0)
   \<and> max2_quant s \<le> max_quant s"

section \<open>Properties of the bit interleaver\<close>

lemma bit_fold_or:
  "bit (fold (\<lambda>i (r :: u32). r OR f i) xs r0) n \<longleftrightarrow> bit r0 n \<or> (\<exists>i \<in> set xs. bit (f i) n)"
  by (induction xs arbitrary: r0) (auto simp: bit_or_iff)

lemma drop_bit_and_single:
  "s < 32 \<Longrightarrow> drop_bit s (x AND push_bit s (1 :: u32)) = of_bool (bit x s)"
  by (rule bit_word_eqI) (auto simp: bit_simps)

lemma bit_interleave_word:
  assumes "s < 32"
  shows "bit (interleave_word input s) i \<longleftrightarrow> i < 32 \<and> bit (input i) s"
proof -
  have "bit (interleave_word input s) i \<longleftrightarrow>
        (i = 0 \<and> bit (input 0) s) \<or> (\<exists>k \<in> {1..<32}. i = k \<and> bit (input k) s)"
    using assms
    by (auto simp: interleave_word_def Let_def bit_fold_or drop_bit_and_single bit_simps)
  then show ?thesis by (cases "i = 0") auto
qed

lemma bit_deinterleave_word:
  "bit (deinterleave_word input bits i) n \<longleftrightarrow> n < bits \<and> n < 32 \<and> bit (input n) i"
  by (auto simp: deinterleave_word_def bit_fold_or bit_simps)

lemma deinterleave_interleave_word:
  assumes "bits \<le> 32" and "i < 32"
  shows "deinterleave_word (\<lambda>j. interleave_words_1bit x bits ! j) bits i = take_bit bits (x i)"
proof (rule bit_word_eqI)
  fix n assume "n < LENGTH(32)"
  then show "bit (deinterleave_word (\<lambda>j. interleave_words_1bit x bits ! j) bits i) n
      \<longleftrightarrow> bit (take_bit bits (x i)) n"
    using assms
    by (auto simp: bit_deinterleave_word interleave_words_1bit_def bit_interleave_word
        bit_take_bit_iff)
qed

section \<open>Properties of \<^verbatim>\<open>bit_count\<close>\<close>

lemma clz_from_le: "clz_from n x \<le> n"
  by (induction n) auto

lemma clz_from_bound:
  "(\<forall>k. n \<le> k \<longrightarrow> \<not> bit x k) \<Longrightarrow> (\<forall>k. n - clz_from n x \<le> k \<longrightarrow> \<not> bit x k)"
proof (induction n)
  case 0
  then show ?case by simp
next
  case (Suc n)
  show ?case
  proof (cases "bit x n")
    case True
    then show ?thesis using Suc.prems by simp
  next
    case False
    then have "\<forall>k. n \<le> k \<longrightarrow> \<not> bit x k"
      using Suc.prems by (metis le_antisym not_less_eq_eq)
    from Suc.IH [OF this] False show ?thesis by simp
  qed
qed

lemma clz_from_zero: "clz_from n 0 = n"
  by (induction n) auto

lemma take_bit_bit_count: "take_bit (32 - clz x) x = x"
proof (rule bit_word_eqI)
  fix n assume "n < LENGTH(32)"
  have "\<forall>k. 32 \<le> k \<longrightarrow> \<not> bit x k"
    using bit_imp_le_length [of x] by fastforce
  from clz_from_bound [OF this]
  show "bit (take_bit (32 - clz x) x) n \<longleftrightarrow> bit x n"
    by (auto simp: bit_take_bit_iff clz_def not_le [symmetric])
qed

lemma unat_bit_count: "unat (bit_count x) = 32 - clz x"
  by (simp add: bit_count_def sizeof_uint32_def unsigned_of_nat take_bit_nat_eq_self)

lemma bit_count_le: "unat (bit_count x) \<le> 32"
  by (simp add: unat_bit_count)

lemma unat_less_bit_count: "unat x < 2 ^ unat (bit_count x)"
proof -
  have "unat (take_bit (32 - clz x) x) < 2 ^ (32 - clz x)"
    by (simp add: unsigned_take_bit_eq)
  then show ?thesis by (simp add: take_bit_bit_count unat_bit_count)
qed

lemma bit_count_zero: "bit_count 0 = 0"
  by (simp add: bit_count_def clz_def clz_from_zero sizeof_uint32_def)

lemma le_mask_bit_count: "x \<le> push_bit (unat (bit_count x)) 1 - 1"
proof -
  have "x = take_bit (32 - clz x) x" by (simp add: take_bit_bit_count)
  also have "\<dots> = x AND mask (32 - clz x)" by (simp add: take_bit_eq_mask)
  also have "\<dots> \<le> mask (32 - clz x)" by (rule word_and_le1)
  finally show ?thesis by (simp add: unat_bit_count mask_eq_exp_minus_1 push_bit_eq_mult)
qed

section \<open>The scan for the two largest residuals\<close>

lemma unat_of_nat_u8: "n < 32 \<Longrightarrow> unat (of_nat n :: u8) = n"
  by (simp add: unsigned_of_nat take_bit_nat_eq_self)

lemma scan_inv_step:
  assumes inv: "scan_inv i n s" and i: "i < THREAD_GROUP_COUNT" and n: "n < QUANT_GROUP_SIZE"
  shows "scan_inv i (Suc n) (quant_step quantize original_data thread_idx i n s)"
proof -
  define z where "z = zigzag_encode (quantize (original_data (compress_float_index thread_idx i n)) - prev_quant s)"
  define qg where "qg = (quant_group s)[i * QUANT_GROUP_SIZE + n := z]"
  define r where "r = (\<lambda>j. quant_group s ! (i * QUANT_GROUP_SIZE + j))"
  define r' where "r' = (\<lambda>j. qg ! (i * QUANT_GROUP_SIZE + j))"
  define idx where "idx = unat (max_index s)"
  have len: "length (quant_group s) = 128"
    using inv by (simp add: scan_inv_def consts_defs)
  have in_range: "i * QUANT_GROUP_SIZE + n < length (quant_group s)"
    using i n len by (simp add: consts_defs)
  have lenqg: "length qg = THREAD_FLOAT_COUNT"
    using inv by (simp add: scan_inv_def qg_def)
  have un: "unat (of_nat n :: u8) = n"
    using n by (simp add: unat_of_nat_u8 QUANT_GROUP_SIZE_def)
  have r'_old: "r' j = r j" if "j < n" for j
    using that by (simp add: r'_def r_def qg_def)
  have r'_new: "r' n = z"
    using in_range by (simp add: r'_def qg_def)
  have idx_n: "0 < n \<Longrightarrow> idx < n" and idx_0: "n = 0 \<Longrightarrow> idx = 0"
    using inv by (auto simp: scan_inv_def idx_def)
  have I3: "0 < n \<Longrightarrow> r idx = max_quant s"
    and I4: "n = 0 \<Longrightarrow> max_quant s = 0"
    and I5: "\<And>j. j < n \<Longrightarrow> r j \<le> max_quant s"
    and I6: "\<And>j. j < idx \<Longrightarrow> r j < max_quant s"
    and I7: "\<And>j. j < n \<Longrightarrow> j \<noteq> idx \<Longrightarrow> r j \<le> max2_quant s"
    and I8: "2 \<le> n \<Longrightarrow> \<exists>j<n. j \<noteq> idx \<and> r j = max2_quant s"
    and I9: "n < 2 \<Longrightarrow> max2_quant s = 0"
    and I10: "max2_quant s \<le> max_quant s"
    using inv by (auto simp: scan_inv_def idx_def r_def)
  consider (new_max) "z > max_quant s"
    | (new_max2) "\<not> z > max_quant s" "z > max2_quant s"
    | (keep) "\<not> z > max_quant s" "\<not> z > max2_quant s"
    by blast
  then show ?thesis
  proof cases
    case new_max
    then have step: "quant_step quantize original_data thread_idx i n s
        = s\<lparr>prev_quant := quantize (original_data (compress_float_index thread_idx i n)),
             quant_group := qg, max2_quant := max_quant s, max_quant := z, max_index := of_nat n\<rparr>"
      by (simp add: quant_step_def Let_def z_def qg_def)
    have a: "\<forall>j<Suc n. r' j \<le> z"
      using new_max I5 r'_old r'_new by (metis less_Suc_eq less_imp_le order_le_less_trans order_refl)
    have b: "\<forall>j<n. r' j < z"
      using new_max I5 r'_old by (metis order_le_less_trans)
    have c: "\<forall>j<Suc n. j \<noteq> n \<longrightarrow> r' j \<le> max_quant s"
      using I5 r'_old by (metis less_Suc_eq)
    have d: "2 \<le> Suc n \<longrightarrow> (\<exists>j<Suc n. j \<noteq> n \<and> r' j = max_quant s)"
    proof
      assume "2 \<le> Suc n"
      then have "0 < n" by simp
      then have "idx < n" "r' idx = max_quant s"
        using idx_n I3 r'_old by auto
      then show "\<exists>j<Suc n. j \<noteq> n \<and> r' j = max_quant s"
        by (intro exI [of _ idx]) simp
    qed
    have e: "Suc n < 2 \<longrightarrow> max_quant s = 0"
      using I4 by auto
    have le: "max_quant s \<le> z" using new_max by simp
    show ?thesis
      unfolding step scan_inv_def
      using a b c d e le r'_new lenqg
      by (simp add: un r'_def)
  next
    case new_max2
    then have step: "quant_step quantize original_data thread_idx i n s
        = s\<lparr>prev_quant := quantize (original_data (compress_float_index thread_idx i n)),
             quant_group := qg, max2_quant := z\<rparr>"
      by (simp add: quant_step_def Let_def z_def qg_def)
    have npos: "0 < n"
    proof (rule ccontr)
      assume "\<not> 0 < n"
      then have "max_quant s = 0" using I4 by simp
      with new_max2 show False by (simp add: word_gt_0 not_less)
    qed
    have zle: "z \<le> max_quant s" using new_max2 by simp
    have a: "\<forall>j<Suc n. r' j \<le> max_quant s"
      using zle I5 r'_old r'_new by (metis less_Suc_eq)
    have b: "\<forall>j<idx. r' j < max_quant s"
      using I6 r'_old idx_n [OF npos] by (metis less_trans)
    have c: "\<forall>j<Suc n. j \<noteq> idx \<longrightarrow> r' j \<le> z"
      using I7 new_max2 r'_old r'_new by (metis less_Suc_eq less_imp_le order_le_less_trans order_refl)
    have d: "\<exists>j<Suc n. j \<noteq> idx \<and> r' j = z"
      using idx_n [OF npos] r'_new by auto
    have e: "r' idx = max_quant s"
      using I3 [OF npos] r'_old idx_n [OF npos] by simp
    show ?thesis
      unfolding step scan_inv_def
      using a b c d e zle npos idx_n [OF npos] lenqg
      by (simp add: r'_def idx_def)
  next
    case keep
    then have step: "quant_step quantize original_data thread_idx i n s
        = s\<lparr>prev_quant := quantize (original_data (compress_float_index thread_idx i n)),
             quant_group := qg\<rparr>"
      by (simp add: quant_step_def Let_def z_def qg_def)
    have zle: "z \<le> max_quant s" "z \<le> max2_quant s" using keep by simp_all
    have z0: "n < 2 \<Longrightarrow> z = 0" using I9 zle by simp
    have idx': "idx < Suc n" using idx_n idx_0 by (cases "n = 0") auto
    have a: "\<forall>j<Suc n. r' j \<le> max_quant s"
      using zle I5 r'_old r'_new by (metis less_Suc_eq)
    have b: "\<forall>j<idx. r' j < max_quant s"
    proof (intro allI impI)
      fix j assume "j < idx"
      then have "0 < n" "j < n" using idx_0 idx_n by (cases "n = 0"; force)+
      then show "r' j < max_quant s" using I6 r'_old \<open>j < idx\<close> by simp
    qed
    have c: "\<forall>j<Suc n. j \<noteq> idx \<longrightarrow> r' j \<le> max2_quant s"
      using I7 zle r'_old r'_new by (metis less_Suc_eq)
    have d: "2 \<le> Suc n \<longrightarrow> (\<exists>j<Suc n. j \<noteq> idx \<and> r' j = max2_quant s)"
    proof
      assume "2 \<le> Suc n"
      then have npos: "0 < n" by simp
      show "\<exists>j<Suc n. j \<noteq> idx \<and> r' j = max2_quant s"
      proof (cases "2 \<le> n")
        case True
        from I8 [OF this] obtain j where "j < n" "j \<noteq> idx" "r j = max2_quant s" by blast
        then show ?thesis using r'_old by (metis less_Suc_eq)
      next
        case False
        then have "n < 2" by simp
        then have "z = 0" "max2_quant s = 0" using z0 I9 by auto
        then show ?thesis using r'_new idx_n [OF npos] by auto
      qed
    qed
    have e: "r' idx = max_quant s"
    proof (cases "n = 0")
      case True
      then show ?thesis using idx_0 r'_new z0 I4 by simp
    next
      case False
      then show ?thesis using I3 r'_old idx_n by simp
    qed
    have f: "Suc n < 2 \<longrightarrow> max2_quant s = 0" using I9 by simp
    show ?thesis
      unfolding step scan_inv_def
      using a b c d e f idx' I10 lenqg
      by (simp add: r'_def idx_def)
  qed
qed

lemma scan_inv_fold:
  assumes "i < THREAD_GROUP_COUNT" and "n \<le> QUANT_GROUP_SIZE" and "length qg = THREAD_FLOAT_COUNT"
  shows "scan_inv i n (fold (quant_step quantize original_data thread_idx i) [0..<n]
           \<lparr>prev_quant = prev, quant_group = qg, max_quant = 0, max2_quant = 0, max_index = 0\<rparr>)"
  using assms(2)
proof (induction n)
  case 0
  then show ?case using assms(3) by (simp add: scan_inv_def)
next
  case (Suc n)
  then have "n \<le> QUANT_GROUP_SIZE" and n: "n < QUANT_GROUP_SIZE" by simp_all
  from Suc.IH [OF this(1)] show ?case
    using scan_inv_step [OF _ assms(1) n] by simp
qed

section \<open>The word count of a thread and of a block\<close>

lemma words_of_bits:
  fixes b :: u32
  assumes "unat b \<le> 32"
  shows "b * of_nat QUANT_GROUP_SIZE div of_nat sizeof_uint32 = 8 * b"
proof -
  have m: "unat (b * 32) = unat b * 32"
    using assms by (simp add: unat_word_ariths)
  have "unat (b * 32 div 4) = unat b * 32 div 4"
    by (simp add: unat_div m)
  moreover have "unat (8 * b) = 8 * unat b"
    using assms by (simp add: unat_word_ariths)
  ultimately have "unat (b * 32 div 4) = unat (8 * b)" by simp
  then show ?thesis by (simp add: word_unat_eq_iff consts_defs)
qed

lemma ucast_bits_u8:
  fixes b :: u32
  assumes "unat b \<le> 32"
  shows "unat (ucast b :: u8) = unat b"
  using assms by (simp add: unsigned_ucast_eq take_bit_nat_eq_self)

lemma param_step_locals:
  "fst (param_step quantize original_data thread_idx tid i (t, mem)) =
     (let s = quant_loop quantize original_data thread_idx i (t_prev_quant t) (t_quant_group t);
          bits = bit_count (max2_quant s)
      in t\<lparr>t_prev_quant := prev_quant s, t_quant_group := quant_group s,
           t_group_bits := (t_group_bits t)[i := ucast bits],
           t_used_words := t_used_words t + 8 * bits\<rparr>)"
  by (simp add: Let_def words_of_bits bit_count_le)

lemma param_step_mem_indep:
  "fst (param_step quantize original_data thread_idx tid i (t, mem))
     = fst (param_step quantize original_data thread_idx tid i (t, mem'))"
  by (simp add: Let_def)

lemma param_fold_mem_indep:
  "fst (fold (param_step quantize original_data thread_idx tid) xs (t, mem))
     = fst (fold (param_step quantize original_data thread_idx tid) xs (t, mem'))"
proof (induction xs arbitrary: t mem mem')
  case Nil
  show ?case by simp
next
  case (Cons x xs)
  obtain t1 m1 where a: "param_step quantize original_data thread_idx tid x (t, mem) = (t1, m1)"
    by (cases "param_step quantize original_data thread_idx tid x (t, mem)")
  obtain t2 m2 where b: "param_step quantize original_data thread_idx tid x (t, mem') = (t2, m2)"
    by (cases "param_step quantize original_data thread_idx tid x (t, mem')")
  have "t1 = t2"
    using param_step_mem_indep [of quantize original_data thread_idx tid x t mem mem'] a b
    by simp
  then show ?case
    using Cons.IH [of t1 m1 m2] a b by simp
qed

lemma compress_params_mem_indep:
  "fst (compress_params quantize original_data thread_idx tid mem)
     = fst (compress_params quantize original_data thread_idx tid mem')"
  unfolding compress_params_def by (rule param_fold_mem_indep)

lemma param_fold_used_words:
  assumes "n \<le> THREAD_GROUP_COUNT"
  shows "length (t_group_bits (fst (fold (param_step quantize original_data thread_idx tid) [0..<n] (thread_init, mem)))) = THREAD_GROUP_COUNT
       \<and> unat (t_used_words (fst (fold (param_step quantize original_data thread_idx tid) [0..<n] (thread_init, mem))))
           = 8 * (\<Sum>i\<leftarrow>[0..<n]. unat (t_group_bits (fst (fold (param_step quantize original_data thread_idx tid) [0..<n] (thread_init, mem))) ! i))
       \<and> unat (t_used_words (fst (fold (param_step quantize original_data thread_idx tid) [0..<n] (thread_init, mem)))) \<le> 256 * n"
  using assms
proof (induction n)
  case 0
  show ?case by (simp add: thread_init_def)
next
  case (Suc n)
  obtain t m where tm: "fold (param_step quantize original_data thread_idx tid) [0..<n] (thread_init, mem) = (t, m)"
    by (cases "fold (param_step quantize original_data thread_idx tid) [0..<n] (thread_init, mem)")
  define bits where "bits = bit_count (max2_quant (quant_loop quantize original_data thread_idx n (t_prev_quant t) (t_quant_group t)))"
  have b32: "unat bits \<le> 32" by (simp add: bits_def bit_count_le)
  from Suc have n: "n < THREAD_GROUP_COUNT" and IH:
    "length (t_group_bits t) = THREAD_GROUP_COUNT"
    "unat (t_used_words t) = 8 * (\<Sum>i\<leftarrow>[0..<n]. unat (t_group_bits t ! i))"
    "unat (t_used_words t) \<le> 256 * n"
    by (simp_all add: tm)
  define t' where "t' = fst (param_step quantize original_data thread_idx tid n (t, m))"
  have gb: "t_group_bits t' = (t_group_bits t)[n := ucast bits]"
    and uw: "t_used_words t' = t_used_words t + 8 * bits"
    by (simp_all add: t'_def Let_def bits_def words_of_bits bit_count_le)
  have "256 * n \<le> 1024" using n by (simp add: consts_defs)
  then have uw_nat: "unat (t_used_words t') = unat (t_used_words t) + 8 * unat bits"
    using b32 IH(3) by (simp add: uw unat_word_ariths)
  have old: "(\<Sum>i\<leftarrow>[0..<n]. unat ((t_group_bits t)[n := ucast bits] ! i))
      = (\<Sum>i\<leftarrow>[0..<n]. unat (t_group_bits t ! i))"
    by (rule arg_cong [where f = sum_list]) simp
  have new: "unat (t_group_bits t' ! n) = unat bits"
    using n IH(1) b32 by (simp add: gb ucast_bits_u8)
  have fold_Suc: "fst (fold (param_step quantize original_data thread_idx tid) [0..<Suc n] (thread_init, mem)) = t'"
    by (simp add: tm t'_def)
  show ?case
    unfolding fold_Suc
    using uw_nat new IH b32 by (simp add: gb old)
qed

lemma compress_params_used_words:
  "unat (t_used_words (fst (compress_params quantize original_data thread_idx tid mem)))
     = 8 * (\<Sum>i\<leftarrow>[0..<THREAD_GROUP_COUNT].
              unat (t_group_bits (fst (compress_params quantize original_data thread_idx tid mem)) ! i))"
  unfolding compress_params_def
  using param_fold_used_words [OF order_refl, of quantize original_data thread_idx tid mem]
  by blast

lemma exclusive_sum_from_length: "length (exclusive_sum_from acc xs) = length xs"
  by (induction xs arbitrary: acc) auto

lemma exclusive_sum_from_nth:
  "n < length xs \<Longrightarrow> exclusive_sum_from acc xs ! n = acc + sum_list (take n xs)"
proof (induction xs arbitrary: acc n)
  case Nil
  then show ?case by simp
next
  case (Cons x xs)
  show ?case
  proof (cases n)
    case 0
    then show ?thesis by simp
  next
    case (Suc k)
    then have "k < length xs" using Cons.prems by simp
    from Cons.IH [OF this, of "acc + x"] Suc show ?thesis by (simp add: add.assoc)
  qed
qed

lemma ExclusiveSum_nth:
  "n < length xs \<Longrightarrow> ExclusiveSum xs ! n = sum_list (take n xs)"
  by (simp add: ExclusiveSum_def exclusive_sum_from_nth)

lemma ExclusiveSum_last_plus:
  assumes "0 < length xs"
  shows "ExclusiveSum xs ! (length xs - 1) + xs ! (length xs - 1) = sum_list xs"
proof -
  have n: "length xs - 1 < length xs" using assms by simp
  have "take (Suc (length xs - 1)) xs = take (length xs - 1) xs @ [xs ! (length xs - 1)]"
    using n by (rule take_Suc_conv_app_nth)
  moreover have "take (Suc (length xs - 1)) xs = xs" using assms by simp
  ultimately have "sum_list xs = sum_list (take (length xs - 1) xs) + xs ! (length xs - 1)"
    by (metis sum_list.Cons sum_list.Nil sum_list_append add.right_neutral)
  moreover have "ExclusiveSum xs ! (length xs - 1) = sum_list (take (length xs - 1) xs)"
    using n by (rule ExclusiveSum_nth)
  ultimately show ?thesis by simp
qed

lemma compress_block_fold:
  "fst (fold (compress_block_thread quantize original_data block_idx bdim) [0..<n] ([], mem))
     = map (\<lambda>tid. fst (compress_params quantize original_data (block_idx * bdim + tid) tid mem0))
         [0..<n]"
proof (induction n)
  case 0
  show ?case by simp
next
  case (Suc n)
  obtain ts m where tm:
    "fold (compress_block_thread quantize original_data block_idx bdim) [0..<n] ([], mem) = (ts, m)"
    by (cases "fold (compress_block_thread quantize original_data block_idx bdim) [0..<n] ([], mem)")
  obtain t m' where c:
    "compress_params quantize original_data (block_idx * bdim + n) n m = (t, m')"
    by (cases "compress_params quantize original_data (block_idx * bdim + n) n m")
  have "t = fst (compress_params quantize original_data (block_idx * bdim + n) n mem0)"
    using compress_params_mem_indep [of quantize original_data "block_idx * bdim + n" n m mem0] c
    by simp
  then show ?case using Suc tm c by simp
qed

lemma compress_block_params_threads:
  "fst (compress_block_params quantize original_data block_idx bdim mem)
     = map (\<lambda>tid. fst (compress_params quantize original_data (block_idx * bdim + tid) tid mem0))
         [0..<bdim]"
  unfolding compress_block_params_def by (rule compress_block_fold)

lemma block_used_words_total:
  assumes "0 < bdim"
  shows "snd (SZplus_compress_kernel_f32 quantize original_data block_idx bdim mem)
     = sum_list (map t_used_words
         (fst (compress_block_params quantize original_data block_idx bdim mem)))"
proof -
  obtain ts m where tm:
    "compress_block_params quantize original_data block_idx bdim mem = (ts, m)"
    by (cases "compress_block_params quantize original_data block_idx bdim mem")
  have len: "length ts = bdim"
    using compress_block_params_threads [of quantize original_data block_idx bdim mem mem] tm
    by (metis fst_conv length_map length_upt minus_nat.diff_0)
  have "ExclusiveSum (map t_used_words ts) ! (bdim - 1) + t_used_words (ts ! (bdim - 1))
      = sum_list (map t_used_words ts)"
    using ExclusiveSum_last_plus [of "map t_used_words ts"] assms len by simp
  then show ?thesis
    by (simp add: SZplus_compress_kernel_f32_def tm Let_def)
qed

section \<open>Claims on the bit interleaver\<close>

text \<open>
  Claim C9, as amended. For every \<open>bits \<le> 32\<close> and every vector \<open>x\<close> of 32 words, the
  interleaver emits exactly \<open>bits\<close> words, word \<open>s\<close> has its bit \<open>i\<close> equal to bit \<open>s\<close> of
  \<open>x[i]\<close>, and the deinterleaver gives back every \<open>x[i]\<close> cut to its low \<open>bits\<close> bits: so
  it gives back \<open>x[i]\<close> itself at every position whose entry has no bit set at position
  \<open>bits\<close> or above.
\<close>

theorem interleave_roundtrip_masked:
  assumes "bits \<le> 32" and "length x = 32"
  shows "length (interleave_words_1bit ((!) x) bits) = bits
       \<and> (\<forall>s<bits. \<forall>i<32. bit (interleave_words_1bit ((!) x) bits ! s) i \<longleftrightarrow> bit (x ! i) s)
       \<and> deinterleave_words_1bit ((!) (interleave_words_1bit ((!) x) bits)) bits
           = map (take_bit bits) x
       \<and> (\<forall>i<32. take_bit bits (x ! i) = x ! i \<longrightarrow>
            deinterleave_words_1bit ((!) (interleave_words_1bit ((!) x) bits)) bits ! i = x ! i)"
proof -
  have len: "length (interleave_words_1bit ((!) x) bits) = bits"
    by (simp add: interleave_words_1bit_def)
  have slice: "\<forall>s<bits. \<forall>i<32. bit (interleave_words_1bit ((!) x) bits ! s) i \<longleftrightarrow> bit (x ! i) s"
    using assms(1) by (simp add: interleave_words_1bit_def bit_interleave_word)
  have rt: "deinterleave_words_1bit ((!) (interleave_words_1bit ((!) x) bits)) bits
           = map (take_bit bits) x"
  proof (rule nth_equalityI)
    show "length (deinterleave_words_1bit ((!) (interleave_words_1bit ((!) x) bits)) bits)
        = length (map (take_bit bits) x)"
      using assms(2) by (simp add: deinterleave_words_1bit_def)
  next
    fix i assume "i < length (deinterleave_words_1bit ((!) (interleave_words_1bit ((!) x) bits)) bits)"
    then have i: "i < 32" by (simp add: deinterleave_words_1bit_def)
    then show "deinterleave_words_1bit ((!) (interleave_words_1bit ((!) x) bits)) bits ! i
         = map (take_bit bits) x ! i"
      using assms deinterleave_interleave_word [OF assms(1) i, of "(!) x"]
      by (simp add: deinterleave_words_1bit_def)
  qed
  have fit: "\<forall>i<32. take_bit bits (x ! i) = x ! i \<longrightarrow>
            deinterleave_words_1bit ((!) (interleave_words_1bit ((!) x) bits)) bits ! i = x ! i"
    using assms(2) by (simp add: rt)
  from len slice rt fit show ?thesis by blast
qed

text \<open>
  Claim C9, an instance of the amended law: two bits, every entry below 4.
\<close>

theorem interleave_roundtrip_masked_witness:
  "deinterleave_words_1bit ((!) (interleave_words_1bit ((!) ([0, 1, 2, 3] @ replicate 28 0)) 2)) 2
     = [0, 1, 2, 3] @ replicate 28 0"
  using interleave_roundtrip_masked [of 2 "[0, 1, 2, 3] @ replicate 28 0"] by simp

text \<open>
  Claim C9 as stated fails where the exception does not fit: with the residuals
  \<open>8, 2, 0, ..., 0\<close> the encoder takes the exception 8 and \<open>bits = 2\<close>; the other entries
  fit in two bits, and the deinterleaved vector is \<open>0, 2, 0, ..., 0\<close>, not the input.
\<close>

theorem interleave_roundtrip_exception_differs:
  "take_bit 2 (2 :: u32) = 2 \<and> take_bit 2 (0 :: u32) = 0
   \<and> deinterleave_words_1bit ((!) (interleave_words_1bit ((!) (8 # 2 # replicate 30 0)) 2)) 2
       = 0 # 2 # replicate 30 0
   \<and> deinterleave_words_1bit ((!) (interleave_words_1bit ((!) (8 # 2 # replicate 30 0)) 2)) 2
       \<noteq> 8 # 2 # replicate 30 0"
proof -
  have "deinterleave_words_1bit ((!) (interleave_words_1bit ((!) (8 # 2 # replicate 30 0)) 2)) 2
       = 0 # 2 # replicate 30 0"
    by code_simp
  then show ?thesis by simp
qed

section \<open>Claims on the group coder\<close>

text \<open>
  Claim C8. For every group \<open>i\<close> of a thread, after the encoder's loop body for the group
  (quantisation, scan, \<^verbatim>\<open>bit_count\<close> and the stores to the parameter tables): the
  \<^verbatim>\<open>max_index\<close> stored in the table is the position of the largest of the group's 32
  residuals, the first one among equals (every earlier residual is strictly smaller);
  some other position \<open>j2\<close> holds the largest of the other 31 residuals, the second
  maximum; the \<^verbatim>\<open>bits\<close> stored in the table and in \<^verbatim>\<open>group_bits\<close> is
  \<^verbatim>\<open>32 - __clz\<close> of the second maximum, which is 0 when the second maximum is 0; the
  second maximum is at most \<^verbatim>\<open>(1 << bits) - 1\<close>, both in 32-bit arithmetic and as
  numbers; and the stored high part is the largest residual shifted right by \<^verbatim>\<open>bits\<close>.
\<close>

theorem param_step_max_index_and_bits:
  assumes "i < THREAD_GROUP_COUNT"
    and "length (t_quant_group t) = THREAD_FLOAT_COUNT"
    and "length (t_group_bits t) = THREAD_GROUP_COUNT"
  shows "let t' = fst (param_step quantize original_data thread_idx tid i (t, mem));
             mem' = snd (param_step quantize original_data thread_idx tid i (t, mem));
             k = THREAD_GROUP_COUNT * tid + i;
             r = (\<lambda>j. t_quant_group t' ! (i * QUANT_GROUP_SIZE + j));
             m = unat (tab_max_index mem' k);
             bits = unat (tab_bits mem' k)
         in m < QUANT_GROUP_SIZE
          \<and> (\<forall>j<QUANT_GROUP_SIZE. r j \<le> r m)
          \<and> (\<forall>j<m. r j < r m)
          \<and> (\<exists>j2<QUANT_GROUP_SIZE. j2 \<noteq> m
                \<and> (\<forall>j<QUANT_GROUP_SIZE. j \<noteq> m \<longrightarrow> r j \<le> r j2)
                \<and> bits = 32 - clz (r j2)
                \<and> (r j2 = 0 \<longrightarrow> bits = 0)
                \<and> r j2 \<le> push_bit bits 1 - 1
                \<and> unat (r j2) \<le> 2 ^ bits - 1)
          \<and> t_group_bits t' ! i = tab_bits mem' k
          \<and> tab_high_bits mem' k = drop_bit bits (r m)"
proof -
  define s where
    "s = quant_loop quantize original_data thread_idx i (t_prev_quant t) (t_quant_group t)"
  define r where "r = (\<lambda>j. quant_group s ! (i * QUANT_GROUP_SIZE + j))"
  define b where "b = bit_count (max2_quant s)"
  have inv: "scan_inv i QUANT_GROUP_SIZE s"
    unfolding s_def quant_loop_def by (rule scan_inv_fold [OF assms(1) order_refl assms(2)])
  have ub: "unat (ucast b :: u8) = unat b"
    by (rule ucast_bits_u8) (simp add: b_def bit_count_le)
  have res: "t_quant_group (fst (param_step quantize original_data thread_idx tid i (t, mem)))
      = quant_group s"
    and gb: "t_group_bits (fst (param_step quantize original_data thread_idx tid i (t, mem))) ! i
      = ucast b"
    and tmi: "tab_max_index (snd (param_step quantize original_data thread_idx tid i (t, mem)))
        (THREAD_GROUP_COUNT * tid + i) = max_index s"
    and tb: "tab_bits (snd (param_step quantize original_data thread_idx tid i (t, mem)))
        (THREAD_GROUP_COUNT * tid + i) = ucast b"
    and th: "tab_high_bits (snd (param_step quantize original_data thread_idx tid i (t, mem)))
        (THREAD_GROUP_COUNT * tid + i) = drop_bit (unat b) (max_quant s)"
    using assms(1,3) by (simp_all add: Let_def s_def b_def)
  have m32: "unat (max_index s) < QUANT_GROUP_SIZE"
    and rm: "r (unat (max_index s)) = max_quant s"
    and all_le: "\<forall>j<QUANT_GROUP_SIZE. r j \<le> max_quant s"
    and before: "\<forall>j<unat (max_index s). r j < max_quant s"
    and others: "\<forall>j<QUANT_GROUP_SIZE. j \<noteq> unat (max_index s) \<longrightarrow> r j \<le> max2_quant s"
    and attained: "\<exists>j<QUANT_GROUP_SIZE. j \<noteq> unat (max_index s) \<and> r j = max2_quant s"
    using inv by (simp_all add: scan_inv_def r_def QUANT_GROUP_SIZE_def)
  from attained obtain j2 where j2: "j2 < QUANT_GROUP_SIZE" "j2 \<noteq> unat (max_index s)"
    "r j2 = max2_quant s" by blast
  have c1: "unat b = 32 - clz (r j2)"
    by (simp add: b_def j2 unat_bit_count)
  have c2: "r j2 = 0 \<longrightarrow> unat b = 0"
    by (simp add: b_def j2 bit_count_zero)
  have c3: "r j2 \<le> push_bit (unat b) 1 - 1"
    unfolding b_def j2 by (rule le_mask_bit_count)
  have c4: "unat (r j2) \<le> 2 ^ unat b - 1"
    using unat_less_bit_count [of "max2_quant s"] by (simp add: b_def j2)
  have second: "\<exists>j2<QUANT_GROUP_SIZE. j2 \<noteq> unat (max_index s)
                \<and> (\<forall>j<QUANT_GROUP_SIZE. j \<noteq> unat (max_index s) \<longrightarrow> r j \<le> r j2)
                \<and> unat b = 32 - clz (r j2)
                \<and> (r j2 = 0 \<longrightarrow> unat b = 0)
                \<and> r j2 \<le> push_bit (unat b) 1 - 1
                \<and> unat (r j2) \<le> 2 ^ unat b - 1"
    using j2 others c1 c2 c3 c4 by auto
  show ?thesis
    unfolding Let_def res gb tmi tb th ub
    using m32 all_le before second rm by (simp add: r_def)
qed

text \<open>
  Claim C8, an instance: group 0 of worker 0 on the ramp \<open>F[k] = k\<close> with step 1. Its
  residuals are \<open>0, 2, 2, ...\<close>: the largest value 2 occurs first at position 1, and
  that is the stored \<^verbatim>\<open>max_index\<close>; the second maximum is 2 and the stored \<^verbatim>\<open>bits\<close> is 2.
\<close>

theorem param_step_max_index_and_bits_witness:
  "0 < THREAD_GROUP_COUNT
   \<and> length (t_quant_group thread_init) = THREAD_FLOAT_COUNT
   \<and> length (t_group_bits thread_init) = THREAD_GROUP_COUNT
   \<and> tab_max_index (snd (param_step quantize_unit ramp 0 0 0 (thread_init, zero_mem))) 0 = 1
   \<and> tab_bits (snd (param_step quantize_unit ramp 0 0 0 (thread_init, zero_mem))) 0 = 2
   \<and> unat (tab_max_index (snd (param_step quantize_unit ramp 0 0 0 (thread_init, zero_mem)))
        (THREAD_GROUP_COUNT * 0 + 0)) < QUANT_GROUP_SIZE
   \<and> t_group_bits (fst (param_step quantize_unit ramp 0 0 0 (thread_init, zero_mem))) ! 0
       = tab_bits (snd (param_step quantize_unit ramp 0 0 0 (thread_init, zero_mem)))
           (THREAD_GROUP_COUNT * 0 + 0)"
proof -
  have h1: "0 < THREAD_GROUP_COUNT" by (simp add: THREAD_GROUP_COUNT_def)
  have h2: "length (t_quant_group thread_init) = THREAD_FLOAT_COUNT"
    by (simp add: thread_init_def)
  have h3: "length (t_group_bits thread_init) = THREAD_GROUP_COUNT"
    by (simp add: thread_init_def)
  have e1: "tab_max_index (snd (param_step quantize_unit ramp 0 0 0 (thread_init, zero_mem))) 0 = 1"
    by code_simp
  have e2: "tab_bits (snd (param_step quantize_unit ramp 0 0 0 (thread_init, zero_mem))) 0 = 2"
    by code_simp
  note t = param_step_max_index_and_bits [OF h1 h2 h3, of quantize_unit ramp 0 0 zero_mem,
      unfolded Let_def]
  from h1 h2 h3 e1 e2 t show ?thesis by blast
qed

section \<open>Claims on the inverse path\<close>

lemma length_fold_update:
  "length (fold (\<lambda>j q. q[f j := g j]) js q0) = length q0"
  by (induction js arbitrary: q0) auto

text \<open>
  Claim C7. For every group whose \<^verbatim>\<open>max_index\<close> byte is below 32, whatever the packed
  words \<open>w\<close> of the block hold, after unpacking (or zero filling) the decoder's residual
  at position \<^verbatim>\<open>max_index\<close> is \<^verbatim>\<open>(high << bits) | ((1 << bits) - 1)\<close>.
\<close>

theorem unpack_group_restores_max:
  assumes "i < THREAD_GROUP_COUNT"
    and "unat (tab_max_index mem (THREAD_GROUP_COUNT * tid + i)) < QUANT_GROUP_SIZE"
    and "length (d_quant_group d) = THREAD_FLOAT_COUNT"
  shows "map_option
           (\<lambda>d'. d_quant_group d'
                    ! (i * QUANT_GROUP_SIZE + unat (tab_max_index mem (THREAD_GROUP_COUNT * tid + i))))
           (unpack_group (mem\<lparr>packed_words := w\<rparr>) tid i d)
         = Some (push_bit (unat (tab_bits mem (THREAD_GROUP_COUNT * tid + i)))
                   (tab_high_bits mem (THREAD_GROUP_COUNT * tid + i))
                 OR (push_bit (unat (tab_bits mem (THREAD_GROUP_COUNT * tid + i))) 1 - 1))"
proof -
  have at: "i * QUANT_GROUP_SIZE + unat (tab_max_index mem (THREAD_GROUP_COUNT * tid + i))
      < THREAD_FLOAT_COUNT"
    using assms(1,2) by (simp add: consts_defs)
  then show ?thesis
    using assms(3)
    by (simp add: unpack_group_def Let_def length_fold_update restore_max_quant_def)
qed

text \<open>
  Claim C7, an instance: \<^verbatim>\<open>max_index = 1\<close>, \<^verbatim>\<open>bits = 2\<close>, \<^verbatim>\<open>high = 0\<close> and packed
  words with every bit set.
\<close>

theorem unpack_group_restores_max_witness:
  "map_option (\<lambda>d'. d_quant_group d' ! 1)
     (unpack_group
        \<lparr>tab_max_index = (\<lambda>_. 1), tab_bits = (\<lambda>_. 2), tab_high_bits = (\<lambda>_. 0),
         packed_words = (\<lambda>_. 0xFFFFFFFF)\<rparr> 0 0
        \<lparr>d_quant_group = replicate THREAD_FLOAT_COUNT 0, d_prev_quant = 0, d_words = 0,
         d_floats = (\<lambda>_. 0 :: int)\<rparr>)
   = Some 3"
  using unpack_group_restores_max [of 0
      "\<lparr>tab_max_index = (\<lambda>_. 1), tab_bits = (\<lambda>_. 2), tab_high_bits = (\<lambda>_. 0),
         packed_words = (\<lambda>_. 0)\<rparr>" 0
      "\<lparr>d_quant_group = replicate THREAD_FLOAT_COUNT 0, d_prev_quant = 0, d_words = 0,
         d_floats = (\<lambda>_. 0 :: int)\<rparr>" "\<lambda>_. 0xFFFFFFFF"]
  by (simp add: consts_defs)

section \<open>Evaluations of the kernels\<close>

lemma ExclusiveSum_first: "ExclusiveSum (x # xs) ! 0 = 0"
  by (simp add: ExclusiveSum_def)

lemma compress_float_index_group_indep:
  "compress_float_index thread_idx i j = compress_float_index thread_idx 0 j"
  by (simp add: compress_float_index_def)

text \<open>
  Claim C2 (fails on the code). The index of the float read for position \<open>j\<close> of group
  \<open>i\<close> does not depend on \<open>i\<close>: for worker 0, group 1, position 0 the kernel reads
  \<open>F[0]\<close>, not \<open>F[32]\<close>. On the input that is 1000 at index 32 and 0 elsewhere, all 128
  residuals of worker 0 are 0.
\<close>

theorem compress_float_index_ignores_group:
  "compress_float_index 0 1 0 = 0
   \<and> spike32 (compress_float_index 0 1 0) = 0
   \<and> spike32 (0 * 128 + 1 * 32 + 0) = 1000
   \<and> t_quant_group (fst (compress_params quantize_unit spike32 0 0 zero_mem)) = replicate 128 0"
  by code_simp

text \<open>
  Claim C3 (fails on the code). On the ramp, each of the four groups of worker 0 has
  \<^verbatim>\<open>bits = 2\<close>, eight in all, and the worker's \<^verbatim>\<open>used_words\<close> is 64: each group adds
  \<^verbatim>\<open>bits * QUANT_GROUP_SIZE / sizeof(uint32_t) = 8 * bits\<close>. For every input,
  \<open>compress_params_used_words\<close> gives a worker's \<^verbatim>\<open>used_words\<close> as 8 times the sum of its
  bits and \<open>block_used_words_total\<close> gives the value stored to \<^verbatim>\<open>block_used_words\<close> as
  the sum of the workers' \<^verbatim>\<open>used_words\<close>.
\<close>

theorem used_words_ramp_is_eight_times_bits:
  "t_used_words (fst (compress_params quantize_unit ramp 0 0 zero_mem)) = 64
   \<and> t_group_bits (fst (compress_params quantize_unit ramp 0 0 zero_mem)) = [2, 2, 2, 2]"
  by code_simp

text \<open>
  Claim C4 (fails on the code). On the ramp, the groups of worker 0 have 8 bits in all
  and group 0 of worker 1 has 2, so the prefix sum of the claim puts group 1 of worker 1 at
  word 10. The encoder writes it at word 66 (the scan gives worker 1 the offset 64) and
  the decoder reads it at word 2 (its pointer starts at word 0 in every thread).
\<close>

theorem group_offsets_ramp_worker1:
  "compress_group_offset (fst (compress_params quantize_unit ramp 1 1 zero_mem))
     (ExclusiveSum [t_used_words (fst (compress_params quantize_unit ramp 0 0 zero_mem)),
                    t_used_words (fst (compress_params quantize_unit ramp 1 1 zero_mem))] ! 1) 1
     = 66
   \<and> decompress_group_offset dequantize_unit
       (snd (compress_params quantize_unit ramp 1 1 zero_mem)) 1 1 (\<lambda>_. 0) 1 = Some 2
   \<and> map (\<lambda>k. unat (tab_bits (snd (compress_params quantize_unit ramp 0 0 zero_mem)) k))
       [0, 1, 2, 3] = [2, 2, 2, 2]
   \<and> unat (tab_bits (snd (compress_params quantize_unit ramp 1 1 zero_mem)) 4) = 2"
  by code_simp

text \<open>
  Claim C1 (fails on the code). On the ramp \<open>F[k] = k\<close> with \<^verbatim>\<open>epsilon = 1.0f\<close>, worker 0
  compresses and decompresses the floats at 0, 1, 2, 3 to 0, -2, -1, 0: the float at
  index 1 comes back 3 away from the input.
\<close>

theorem roundtrip_ramp_off_by_three:
  "map ramp [0, 1, 2, 3] = [0, 1, 2, 3]
   \<and> map_option (\<lambda>d. map (d_floats d) [0, 1, 2, 3])
       (thread0_roundtrip quantize_unit dequantize_unit ramp (\<lambda>_. 0))
     = Some [0, - 2, - 1, 0]"
  by code_simp

section \<open>Evaluations of the host side\<close>

text \<open>
  Claim C5 (fails on the code). When \<^verbatim>\<open>cudaMalloc\<close> fails and every other step would
  succeed, \<^verbatim>\<open>Compress\<close> returns \<^verbatim>\<open>true\<close>: its \<^verbatim>\<open>return -1;\<close> converts to \<^verbatim>\<open>true\<close>.
  The same holds when \<^verbatim>\<open>cudaMallocManaged\<close> fails.
\<close>

theorem Compress_true_when_cudaMalloc_fails:
  "Compress
     \<lparr>cudaMalloc_failed = True, cudaMemcpy_failed = False, cudaMallocManaged_failed = False,
      cudaStreamCreate_failed = False, kernel_failed = False, createCStream_null = False,
      initCStream_error = False, cudaDeviceSynchronize_failed = False,
      header_stream = Stream_done, block_stream = (\<lambda>_. Stream_done),
      end_stream = Stream_done\<rparr> 1 = True
   \<and> Compress
     \<lparr>cudaMalloc_failed = False, cudaMemcpy_failed = False, cudaMallocManaged_failed = True,
      cudaStreamCreate_failed = False, kernel_failed = False, createCStream_null = False,
      initCStream_error = False, cudaDeviceSynchronize_failed = False,
      header_stream = Stream_done, block_stream = (\<lambda>_. Stream_done),
      end_stream = Stream_done\<rparr> 1 = True"
  by (simp add: Compress_def int_to_bool_def)

lemma Compress_ignores_cudaMemcpy_failure:
  "Compress
     \<lparr>cudaMalloc_failed = False, cudaMemcpy_failed = True, cudaMallocManaged_failed = False,
      cudaStreamCreate_failed = False, kernel_failed = False, createCStream_null = False,
      initCStream_error = False, cudaDeviceSynchronize_failed = False,
      header_stream = Stream_done, block_stream = (\<lambda>_. Stream_done),
      end_stream = Stream_done\<rparr> 1 = True"
  by (simp add: Compress_def c_div_def consts_defs)

lemma Decompress_header_short:
  "length data < kHeaderBytes \<Longrightarrow> Decompress_header data = Returns False"
  by (simp add: Decompress_header_def)

lemma Decompress_header_bad_magic:
  assumes "kHeaderBytes \<le> length data"
    and "read_uint32_le data 0 = Continues magic" and "magic \<noteq> kMagic"
  shows "Decompress_header data = Returns False"
  using assms by (simp add: Decompress_header_def bind_outcome_def)

text \<open>
  Claim C6 (fails on the code). On the 12 bytes of a header with the magic, the step
  1.0 and \<^verbatim>\<open>float_count = 1\<close>, \<^verbatim>\<open>Decompress\<close> takes \<^verbatim>\<open>block_count = 1\<close> and reads
  \<^verbatim>\<open>data[12]\<close>, one byte past the end of its input.
\<close>

theorem Decompress_header_reads_past_end:
  "length [0x07, 0xD0, 0x7D, 0xCA, 0, 0, 0x80, 0x3F, 1, 0, 0, 0 :: u8] = 12
   \<and> Decompress_header [0x07, 0xD0, 0x7D, 0xCA, 0, 0, 0x80, 0x3F, 1, 0, 0, 0] = Read_past_end 12"
  by (simp add: Decompress_header_def consts_defs read_uint32_le_def read_byte_def
      bind_outcome_def kMagic_def c_div_def)

end
